theory Spec2Isabelle
  imports Complex_Main
begin

section \<open>Values, arrays and errors of the host language\<close>

text \<open>
  Objects are referred to by reference. A reference always denotes an object, so the
  object store below is a total function from references to objects.
  An optional numeric argument of a method is either absent (\<open>undefined\<close>) or a number;
  indices are integers.
\<close>

type_synonym ref = nat

datatype jsarg = Undefined | Number int

datatype error = Error | RangeError

text \<open>\<open>Array.prototype.indexOf\<close>: the first position of the element, or \<open>-1\<close>.\<close>

fun indexOf :: "'a list \<Rightarrow> 'a \<Rightarrow> int" where
  "indexOf [] x = - 1"
| "indexOf (y # ys) x =
     (if y = x then 0
      else (let i = indexOf ys x in if i = - 1 then - 1 else i + 1))"

text \<open>
  \<open>Array.prototype.splice(start, deleteCount, items...)\<close>: a negative start counts from
  the end, start and count are clamped to the array; the result is the removed slice
  and the array after the call.
\<close>

definition splice :: "'a list \<Rightarrow> int \<Rightarrow> int \<Rightarrow> 'a list \<Rightarrow> 'a list \<times> 'a list" where
  "splice xs start deleteCount items =
     (let len = int (length xs);
          s = (if start < 0 then max (len + start) 0 else min start len);
          d = min (max deleteCount 0) (len - s)
      in (take (nat d) (drop (nat s) xs),
          take (nat s) xs @ items @ drop (nat (s + d)) xs))"

text \<open>
  Modelled from the spec: \<open>utils.removeItems(arr, startIdx, removeCount)\<close> is not among
  the source files. The spec describes its use as splicing the child out of the list:
  the \<open>removeCount\<close> elements from \<open>startIdx\<close> on are removed.
\<close>

definition removeItems :: "'a list \<Rightarrow> nat \<Rightarrow> nat \<Rightarrow> 'a list" where
  "removeItems arr startIdx removeCount = take startIdx arr @ drop (startIdx + removeCount) arr"

section \<open>The object store of display objects\<close>

record display_object =
  parent :: "ref option"
  children :: "ref list"

text \<open>
  What an observer sees of a mutation: a call of the overridable hook
  \<open>onChildrenChange\<close> of a container with its argument, and a notification
  \<open>child.emit(name, container)\<close>.
\<close>

datatype event = OnChildrenChange ref jsarg | Emit ref string ref

record world =
  heap :: "ref \<Rightarrow> display_object"
  events :: "event list"

definition fresh_world :: world where
  "fresh_world = \<lparr>heap = (\<lambda>_. \<lparr>parent = None, children = []\<rparr>), events = []\<rparr>"

definition set_parent :: "ref \<Rightarrow> ref option \<Rightarrow> world \<Rightarrow> world" where
  "set_parent x p w = w\<lparr>heap := (heap w)(x := (heap w x)\<lparr>parent := p\<rparr>)\<rparr>"

definition set_children :: "ref \<Rightarrow> ref list \<Rightarrow> world \<Rightarrow> world" where
  "set_children c xs w = w\<lparr>heap := (heap w)(c := (heap w c)\<lparr>children := xs\<rparr>)\<rparr>"

definition onChildrenChange :: "ref \<Rightarrow> jsarg \<Rightarrow> world \<Rightarrow> world" where
  "onChildrenChange this a w = w\<lparr>events := events w @ [OnChildrenChange this a]\<rparr>"

definition emit :: "ref \<Rightarrow> string \<Rightarrow> ref \<Rightarrow> world \<Rightarrow> world" where
  "emit child name this w = w\<lparr>events := events w @ [Emit child name this]\<rparr>"

section \<open>Container: child-list management\<close>

text \<open>
  \<open>removeChild\<close> with exactly one argument (the \<open>else\<close> branch of the method). The
  result is \<open>None\<close> where the method returns \<open>undefined\<close>.
\<close>

definition removeChild_single :: "ref \<Rightarrow> ref \<Rightarrow> world \<Rightarrow> ref option \<times> world" where
  "removeChild_single this child w =
     (let index = indexOf (children (heap w this)) child in
      if index = - 1 then (None, w)
      else
        let w1 = set_parent child None w;
            w2 = set_children this (removeItems (children (heap w1 this)) (nat index) 1) w1;
            w3 = onChildrenChange this (Number index) w2;
            w4 = emit child ''removed'' this w3
        in (Some child, w4))"

text \<open>
  \<open>removeChild(child, ...)\<close>: with more than one argument every argument is removed by a
  one-argument call, and the first argument is returned.
\<close>

definition removeChild :: "ref \<Rightarrow> ref \<Rightarrow> ref list \<Rightarrow> world \<Rightarrow> ref option \<times> world" where
  "removeChild this child rest w =
     (if length (child # rest) > 1
      then (Some child, fold (\<lambda>a w'. snd (removeChild_single this a w')) (child # rest) w)
      else removeChild_single this child w)"

text \<open>\<open>addChild\<close> with exactly one argument (the \<open>else\<close> branch of the method).\<close>

definition addChild_single :: "ref \<Rightarrow> ref \<Rightarrow> world \<Rightarrow> ref \<times> world" where
  "addChild_single this child w =
     (let w1 = (case parent (heap w child) of
                  Some p \<Rightarrow> snd (removeChild p child [] w)
                | None \<Rightarrow> w);
          w2 = set_parent child (Some this) w1;
          w3 = set_children this (children (heap w2 this) @ [child]) w2;
          w4 = onChildrenChange this (Number (int (length (children (heap w3 this))) - 1)) w3;
          w5 = emit child ''added'' this w4
      in (child, w5))"

definition addChild :: "ref \<Rightarrow> ref \<Rightarrow> ref list \<Rightarrow> world \<Rightarrow> ref \<times> world" where
  "addChild this child rest w =
     (if length (child # rest) > 1
      then (child, fold (\<lambda>a w'. snd (addChild_single this a w')) (child # rest) w)
      else addChild_single this child w)"

definition addChildAt :: "ref \<Rightarrow> ref \<Rightarrow> int \<Rightarrow> world \<Rightarrow> error + ref \<times> world" where
  "addChildAt this child index w =
     (if index \<ge> 0 \<and> index \<le> int (length (children (heap w this))) then
        let w1 = (case parent (heap w child) of
                    Some p \<Rightarrow> snd (removeChild p child [] w)
                  | None \<Rightarrow> w);
            w2 = set_parent child (Some this) w1;
            w3 = set_children this (snd (splice (children (heap w2 this)) index 0 [child])) w2;
            w4 = onChildrenChange this (Number index) w3;
            w5 = emit child ''added'' this w4
        in Inr (child, w5)
      else Inl Error)"






text \<open>
  \<open>removeChildren(beginIndex, endIndex)\<close>. \<open>beginIndex || 0\<close> is \<open>0\<close> for an absent
  argument and for the number \<open>0\<close>; \<open>endIndex\<close> is used when it is a number and
  defaults to the length of the list. The hook is called with the argument
  \<open>beginIndex\<close> as it was passed.
\<close>

definition removeChildren :: "ref \<Rightarrow> jsarg \<Rightarrow> jsarg \<Rightarrow> world \<Rightarrow> error + ref list \<times> world" where
  "removeChildren this beginIndex endIndex w =
     (let begin = (case beginIndex of Undefined \<Rightarrow> 0 | Number n \<Rightarrow> if n = 0 then 0 else n);
          end = (case endIndex of Number n \<Rightarrow> n
                 | Undefined \<Rightarrow> int (length (children (heap w this))));
          range = end - begin
      in if range > 0 \<and> range \<le> end then
           let removed = fst (splice (children (heap w this)) begin range []);
               w1 = set_children this (snd (splice (children (heap w this)) begin range [])) w;
               w2 = fold (\<lambda>r. set_parent r None) removed w1;
               w3 = onChildrenChange this beginIndex w2;
               w4 = fold (\<lambda>r. emit r ''removed'' this) removed w3
           in Inr (removed, w4)
         else if range = 0 \<and> length (children (heap w this)) = 0 then Inr ([], w)
         else Inl RangeError)"

section \<open>Facts about the array primitives\<close>

lemma indexOf_ge: "- 1 \<le> indexOf xs x"
  by (induction xs) (auto simp: Let_def)

lemma indexOf_minus1_iff: "indexOf xs x = - 1 \<longleftrightarrow> x \<notin> set xs"
proof (induction xs)
  case Nil
  show ?case by simp
next
  case (Cons y ys)
  have "- 1 \<le> indexOf ys x" by (rule indexOf_ge)
  with Cons show ?case by (auto simp: Let_def)
qed

section \<open>Facts about the object store\<close>








section \<open>Removing a node that is not a child\<close>

text \<open>
  C10. For a container \<open>c\<close> and a node \<open>x\<close> that is not in the child list of \<open>c\<close>, the
  one-argument call \<open>c.removeChild(x)\<close> returns \<open>undefined\<close> and leaves the whole state as
  it was: the child list of \<open>c\<close>, the parent of \<open>x\<close>, and the log of hook calls and
  notifications. When \<open>x\<close> is a child, the call returns \<open>x\<close>, so the two outcomes differ
  in the returned value.
\<close>

theorem removeChild_not_a_child:
  "(x \<notin> set (children (heap w c)) \<longrightarrow> removeChild c x [] w = (None, w)) \<and>
   (x \<in> set (children (heap w c)) \<longrightarrow> fst (removeChild c x [] w) = Some x)"
  by (simp add: removeChild_def removeChild_single_def Let_def indexOf_minus1_iff)

lemmas world_eval = fresh_world_def set_parent_def set_children_def onChildrenChange_def
  emit_def removeChild_def removeChild_single_def addChild_def addChild_single_def
  removeItems_def Let_def

theorem removeChild_not_a_child_witness:
  "removeChild 0 2 [] (snd (addChild 0 1 [] fresh_world)) =
     (None, snd (addChild 0 1 [] fresh_world)) \<and>
   fst (removeChild 0 1 [] (snd (addChild 0 1 [] fresh_world))) = Some 1"
proof -
  let ?w = "snd (addChild 0 1 [] fresh_world)"
  have h1: "(2::nat) \<notin> set (children (heap ?w 0))"
    by (simp add: world_eval)
  have h2: "(1::nat) \<in> set (children (heap ?w 0))"
    by (simp add: world_eval)
  from removeChild_not_a_child [of 2 ?w 0] h1
  have "removeChild 0 2 [] ?w = (None, ?w)" by blast
  moreover from removeChild_not_a_child [of 1 ?w 0] h2
  have "fst (removeChild 0 1 [] ?w) = Some 1" by blast
  ultimately show ?thesis by blast
qed

section \<open>Range removal\<close>

text \<open>
  C1 (as the code has it). A zero-length range \<open>removeChildren(b, b)\<close> succeeds, removes
  nothing and returns an empty result exactly when the child list is empty; on a
  non-empty child list it raises a \<open>RangeError\<close>, \<open>removeChildren(0, 0)\<close> included.
  With both arguments defaulted the call succeeds on every list: on an empty list it
  returns an empty result and changes nothing, on a non-empty list it removes every
  child. For numeric arguments a \<open>RangeError\<close> is raised exactly when \<open>end < begin\<close>,
  or \<open>begin < 0\<close> with \<open>begin < end\<close>, or \<open>begin = end\<close> on a non-empty list (an end
  beyond the length is no error), and no other error is raised.
\<close>

theorem removeChildren_range_error:
  "removeChildren this (Number b) (Number b) w =
     (if children (heap w this) = [] then Inr ([], w) else Inl RangeError) \<and>
   removeChildren this Undefined Undefined w =
     (if children (heap w this) = [] then Inr ([], w)
      else Inr (children (heap w this),
             fold (\<lambda>r. emit r ''removed'' this) (children (heap w this))
               (onChildrenChange this Undefined
                 (fold (\<lambda>r. set_parent r None) (children (heap w this))
                   (set_children this [] w))))) \<and>
   (removeChildren this (Number b) (Number e) w = Inl RangeError \<longleftrightarrow>
      e < b \<or> (b < e \<and> b < 0) \<or> (b = e \<and> children (heap w this) \<noteq> [])) \<and>
   removeChildren this (Number b) (Number e) w \<noteq> Inl Error"
proof -
  have zero: "removeChildren this (Number b) (Number b) w =
     (if children (heap w this) = [] then Inr ([], w) else Inl RangeError)"
    by (simp add: removeChildren_def)
  have dflt: "removeChildren this Undefined Undefined w =
     (if children (heap w this) = [] then Inr ([], w)
      else Inr (children (heap w this),
             fold (\<lambda>r. emit r ''removed'' this) (children (heap w this))
               (onChildrenChange this Undefined
                 (fold (\<lambda>r. set_parent r None) (children (heap w this))
                   (set_children this [] w)))))"
    by (simp add: removeChildren_def splice_def Let_def)
  have err: "removeChildren this (Number b) (Number e) w = Inl RangeError \<longleftrightarrow>
      e < b \<or> (b < e \<and> b < 0) \<or> (b = e \<and> children (heap w this) \<noteq> [])"
    by (auto simp: removeChildren_def Let_def)
  have noerr: "removeChildren this (Number b) (Number e) w \<noteq> Inl Error"
    by (simp add: removeChildren_def Let_def)
  from zero dflt err noerr show ?thesis by blast
qed

text \<open>
  The claim as the spec words it fails: on the one-child list built by
  \<open>addChild\<close>, \<open>removeChildren(0, 0)\<close> raises a \<open>RangeError\<close>.
\<close>

theorem removeChildren_zero_range_counterexample:
  "children (heap (snd (addChild 0 1 [] fresh_world)) 0) \<noteq> [] \<and>
   removeChildren 0 (Number 0) (Number 0) (snd (addChild 0 1 [] fresh_world)) = Inl RangeError"
  by (simp add: removeChildren_def world_eval)

section \<open>The change hook\<close>










lemma addChildAt_error:
  "\<not> (0 \<le> i \<and> i \<le> int (length (children (heap w c)))) \<Longrightarrow> addChildAt c x i w = Inl Error"
  by (auto simp: addChildAt_def)












lemma removeChildren_result:
  "removeChildren c beginIndex endIndex w = Inl RangeError \<or>
   removeChildren c beginIndex endIndex w = Inr ([], w) \<or>
   (\<exists>removed w'. removeChildren c beginIndex endIndex w = Inr (removed, w'))"
  by (simp add: removeChildren_def Let_def)














section \<open>Every child has one parent\<close>































section \<open>The scene tree\<close>

text \<open>
  The traversals (\<open>renderWebGL\<close>, \<open>updateTransform\<close>, the bounds getters) walk the child
  lists recursively. They are modelled over the finite tree the child lists unfold to:
  a container is its fields together with its children, each again a container (the
  only class of the source). Counters are unbounded naturals, \<open>worldAlpha\<close> is a real
  number, and a coordinate of a rectangle is a real number, an infinity or \<open>NaN\<close>.
  \<open>EMPTY\<close> stands for the one object \<open>math.Rectangle.EMPTY\<close>, every other rectangle
  object is a \<open>Rectangle\<close> with its four coordinates, so that comparing by identity
  with \<open>EMPTY\<close> is comparing with the constructor.
\<close>

datatype jsnum = NaN | NegInfinity | Finite real | Infinity

datatype rect = EMPTY | Rectangle jsnum jsnum jsnum jsnum

text \<open>
  The fields of a container. \<open>priv_mask\<close> is \<open>_mask\<close> (absent or a mask object),
  \<open>priv_filters\<close> is \<open>_filters\<close> (absent or an array of filters, possibly empty; an empty
  array is truthy). \<open>priv_localBounds\<close> holds, when \<open>_localBounds\<close> is set, the rectangles
  its \<open>getBounds\<close> and \<open>getComputedBounds\<close> return; \<open>projectedGeometry\<close> and
  \<open>geometry\<close> hold the bounds of the geometry that \<open>updateProjectedGeometry()\<close> and
  \<open>updateGeometry()\<close> return, when they return one.
\<close>

record container_fields =
  oid :: ref
  visible :: bool
  renderable :: bool
  worldAlpha :: real
  priv_mask :: "ref option"
  priv_filters :: "ref list option"
  displayOrder :: nat
  updatePostOrder :: nat
  priv_localBounds :: "(rect \<times> rect) option"
  priv_currentBounds :: "rect option"
  priv_currentComputedBounds :: "rect option"
  priv_bounds :: rect
  priv_computedBounds :: rect
  projectedGeometry :: "rect option"
  geometry :: "rect option"

datatype container = Container (node_fields: container_fields) (node_children: "container list")

section \<open>Rendering with the WebGL renderer\<close>

text \<open>
  The calls a traversal makes on the renderer, in order: \<open>currentRenderer.flush()\<close> and
  \<open>start()\<close>, the filter and mask managers' push and pop, and the node's own
  \<open>_renderWebGL(renderer)\<close>, which emits its geometry.
\<close>

datatype call =
    Flush | Start
  | PushFilter ref "ref list" | PopFilter
  | PushMask ref ref | PopMask ref ref
  | RenderWebGL ref

record render_state =
  display_order :: nat
  calls :: "call list"

text \<open>
  Modelled from the spec: \<open>utils.incDisplayOrder()\<close> is not among the source files. The
  spec describes it as the next value of a globally incrementing counter: the counter is
  incremented and its new value returned.
\<close>

definition incDisplayOrder :: "render_state \<Rightarrow> nat \<times> render_state" where
  "incDisplayOrder s = (Suc (display_order s), s\<lparr>display_order := Suc (display_order s)\<rparr>)"

definition backend :: "call \<Rightarrow> render_state \<Rightarrow> render_state" where
  "backend c s = s\<lparr>calls := calls s @ [c]\<rparr>"

fun renderWebGL :: "container \<Rightarrow> render_state \<Rightarrow> container \<times> render_state"
  and renderWebGL_children :: "container list \<Rightarrow> render_state \<Rightarrow> container list \<times> render_state"
  where
  "renderWebGL (Container f cs) s =
     (if \<not> visible f then (Container (f\<lparr>displayOrder := 0\<rparr>) cs, s)
      else
        case incDisplayOrder s of (n, s1) \<Rightarrow>
        let this = f\<lparr>displayOrder := n\<rparr> in
        if worldAlpha this \<le> 0 \<or> \<not> renderable this then (Container this cs, s1)
        else if priv_mask this \<noteq> None \<or> priv_filters this \<noteq> None then
          let s2 = backend Flush s1;
              s3 = (case priv_filters this of
                      Some fs \<Rightarrow> if length fs \<noteq> 0 then backend (PushFilter (oid this) fs) s2 else s2
                    | None \<Rightarrow> s2);
              s4 = (case priv_mask this of
                      Some m \<Rightarrow> backend (PushMask (oid this) m) s3
                    | None \<Rightarrow> s3);
              s5 = backend Start s4;
              s6 = backend (RenderWebGL (oid this)) s5
          in case renderWebGL_children cs s6 of (cs', s7) \<Rightarrow>
          let s8 = backend Flush s7;
              s9 = (case priv_mask this of
                      Some m \<Rightarrow> backend (PopMask (oid this) m) s8
                    | None \<Rightarrow> s8);
              s10 = (case priv_filters this of
                      Some fs \<Rightarrow> backend PopFilter s9
                    | None \<Rightarrow> s9);
              s11 = backend Start s10
          in (Container this cs', s11)
        else
          let s2 = backend (RenderWebGL (oid this)) s1
          in case renderWebGL_children cs s2 of (cs', s3) \<Rightarrow> (Container this cs', s3))"
| "renderWebGL_children [] s = ([], s)"
| "renderWebGL_children (c # cs) s =
     (case renderWebGL c s of (c', s1) \<Rightarrow>
      case renderWebGL_children cs s1 of (cs', s2) \<Rightarrow> (c' # cs', s2))"


text \<open>
  A visible, renderable, opaque container without mask, filters or geometry, and the
  renderer before the first call.
\<close>

definition plain :: "ref \<Rightarrow> container_fields" where
  "plain i = \<lparr>oid = i, visible = True, renderable = True, worldAlpha = 1,
     priv_mask = None, priv_filters = None, displayOrder = 0, updatePostOrder = 0,
     priv_localBounds = None, priv_currentBounds = None, priv_currentComputedBounds = None,
     priv_bounds = Rectangle (Finite 0) (Finite 0) (Finite 1) (Finite 1),
     priv_computedBounds = Rectangle (Finite 0) (Finite 0) (Finite 1) (Finite 1),
     projectedGeometry = None, geometry = None\<rparr>"

definition idle :: render_state where
  "idle = \<lparr>display_order = 0, calls = []\<rparr>"

text \<open>The calls that rendering a subtree makes.\<close>

definition webgl_calls :: "container \<Rightarrow> call list" where
  "webgl_calls t = calls (snd (renderWebGL t idle))"

lemma calls_backend: "calls (backend c s) = calls s @ [c]"
  by (simp add: backend_def)

lemma calls_incDisplayOrder: "calls (snd (incDisplayOrder s)) = calls s"
  by (simp add: incDisplayOrder_def)

text \<open>
  C5. When \<open>visible\<close> is false, \<open>renderWebGL\<close> sets \<open>displayOrder\<close> to \<open>0\<close> and
  returns: the renderer (its calls and the display-order counter) and the children are
  as before. When \<open>visible\<close> is true, \<open>displayOrder\<close> becomes the next value of the
  counter; if then \<open>worldAlpha \<le> 0\<close> or \<open>renderable\<close> is false, the method returns
  with no call on the renderer and the children untouched, the counter advanced by this
  node only.
\<close>

theorem renderWebGL_gates:
  "(\<not> visible f \<longrightarrow>
      renderWebGL (Container f cs) s = (Container (f\<lparr>displayOrder := 0\<rparr>) cs, s)) \<and>
   (visible f \<and> (worldAlpha f \<le> 0 \<or> \<not> renderable f) \<longrightarrow>
      renderWebGL (Container f cs) s =
        (Container (f\<lparr>displayOrder := fst (incDisplayOrder s)\<rparr>) cs, snd (incDisplayOrder s)) \<and>
      calls (snd (incDisplayOrder s)) = calls s) \<and>
   (visible f \<longrightarrow>
      (\<exists>f' cs' s'. renderWebGL (Container f cs) s = (Container f' cs', s') \<and>
         displayOrder f' = fst (incDisplayOrder s) \<and>
         fst (incDisplayOrder s) = Suc (display_order s)))"
  by (auto simp: incDisplayOrder_def Let_def split: prod.splits)


theorem renderWebGL_gates_witness:
  "renderWebGL (Container ((plain 0)\<lparr>visible := False\<rparr>) [Container (plain 1) []]) idle =
     (Container ((plain 0)\<lparr>visible := False, displayOrder := 0\<rparr>) [Container (plain 1) []], idle) \<and>
   renderWebGL (Container ((plain 0)\<lparr>worldAlpha := 0\<rparr>) [Container (plain 1) []]) idle =
     (Container ((plain 0)\<lparr>worldAlpha := 0, displayOrder := 1\<rparr>) [Container (plain 1) []],
      idle\<lparr>display_order := 1\<rparr>) \<and>
   renderWebGL (Container ((plain 0)\<lparr>renderable := False\<rparr>) [Container (plain 1) []]) idle =
     (Container ((plain 0)\<lparr>renderable := False, displayOrder := 1\<rparr>) [Container (plain 1) []],
      idle\<lparr>display_order := 1\<rparr>)"
proof -
  have v: "\<not> visible ((plain 0)\<lparr>visible := False\<rparr>)" by simp
  have a: "visible ((plain 0)\<lparr>worldAlpha := 0\<rparr>) \<and>
           (worldAlpha ((plain 0)\<lparr>worldAlpha := 0\<rparr>) \<le> 0 \<or>
            \<not> renderable ((plain 0)\<lparr>worldAlpha := 0\<rparr>))"
    by (simp add: plain_def)
  have r: "visible ((plain 0)\<lparr>renderable := False\<rparr>) \<and>
           (worldAlpha ((plain 0)\<lparr>renderable := False\<rparr>) \<le> 0 \<or>
            \<not> renderable ((plain 0)\<lparr>renderable := False\<rparr>))"
    by (simp add: plain_def)
  from renderWebGL_gates [of "(plain 0)\<lparr>visible := False\<rparr>" "[Container (plain 1) []]" idle] v
  have 1: "renderWebGL (Container ((plain 0)\<lparr>visible := False\<rparr>) [Container (plain 1) []]) idle =
     (Container ((plain 0)\<lparr>visible := False, displayOrder := 0\<rparr>) [Container (plain 1) []], idle)"
    by blast
  from renderWebGL_gates [of "(plain 0)\<lparr>worldAlpha := 0\<rparr>" "[Container (plain 1) []]" idle] a
  have "renderWebGL (Container ((plain 0)\<lparr>worldAlpha := 0\<rparr>) [Container (plain 1) []]) idle =
        (Container ((plain 0)\<lparr>worldAlpha := 0,
           displayOrder := fst (incDisplayOrder idle)\<rparr>) [Container (plain 1) []],
         snd (incDisplayOrder idle))"
    by blast
  then have 2: "renderWebGL (Container ((plain 0)\<lparr>worldAlpha := 0\<rparr>) [Container (plain 1) []]) idle =
     (Container ((plain 0)\<lparr>worldAlpha := 0, displayOrder := 1\<rparr>) [Container (plain 1) []],
      idle\<lparr>display_order := 1\<rparr>)"
    by (simp add: incDisplayOrder_def idle_def)
  from renderWebGL_gates [of "(plain 0)\<lparr>renderable := False\<rparr>" "[Container (plain 1) []]" idle] r
  have "renderWebGL (Container ((plain 0)\<lparr>renderable := False\<rparr>) [Container (plain 1) []]) idle =
        (Container ((plain 0)\<lparr>renderable := False,
           displayOrder := fst (incDisplayOrder idle)\<rparr>) [Container (plain 1) []],
         snd (incDisplayOrder idle))"
    by blast
  then have 3: "renderWebGL (Container ((plain 0)\<lparr>renderable := False\<rparr>) [Container (plain 1) []]) idle =
     (Container ((plain 0)\<lparr>renderable := False, displayOrder := 1\<rparr>) [Container (plain 1) []],
      idle\<lparr>display_order := 1\<rparr>)"
    by (simp add: incDisplayOrder_def idle_def)
  from 1 2 3 show ?thesis by blast
qed

lemma calls_renderWebGL_children:
  assumes "\<And>c s. c \<in> set cs \<Longrightarrow> calls (snd (renderWebGL c s)) = calls s @ webgl_calls c"
  shows "calls (snd (renderWebGL_children cs s)) = calls s @ concat (map webgl_calls cs)"
  using assms
proof (induction cs arbitrary: s)
  case Nil
  show ?case by simp
next
  case (Cons c cs)
  have "calls (snd (renderWebGL_children (c # cs) s)) =
          calls (snd (renderWebGL_children cs (snd (renderWebGL c s))))"
    by (simp add: case_prod_beta)
  also have "\<dots> = calls (snd (renderWebGL c s)) @ concat (map webgl_calls cs)"
    using Cons.IH Cons.prems by simp
  also have "\<dots> = (calls s @ webgl_calls c) @ concat (map webgl_calls cs)"
    using Cons.prems [of c s] by simp
  finally show ?case by simp
qed

lemma calls_renderWebGL_node:
  assumes "\<And>s. calls (snd (renderWebGL_children cs s)) = calls s @ K"
  shows "calls (snd (renderWebGL (Container f cs) s)) =
           calls s @ calls (snd (renderWebGL (Container f cs) idle))"
  by (cases "visible f"; cases "worldAlpha f \<le> 0 \<or> \<not> renderable f";
      cases "priv_mask f"; cases "priv_filters f")
     (simp_all add: assms case_prod_beta Let_def calls_backend incDisplayOrder_def idle_def)

lemma calls_renderWebGL:
  "calls (snd (renderWebGL t s)) = calls s @ webgl_calls t"
proof (induction t arbitrary: s)
  case (Container f cs)
  have ch: "calls (snd (renderWebGL_children cs s')) = calls s' @ concat (map webgl_calls cs)"
    for s'
    by (rule calls_renderWebGL_children) (rule Container.IH)
  show ?case
    unfolding webgl_calls_def by (rule calls_renderWebGL_node [OF ch])
qed

text \<open>
  C4. For a visible, renderable node with positive \<open>worldAlpha\<close>, a mask and a non-empty
  filter list, \<open>renderWebGL\<close> makes exactly these calls: flush, pushFilter, pushMask,
  start, the node's own geometry, the calls of every child in list order, flush, popMask,
  popFilter, start.
\<close>

theorem renderWebGL_mask_and_filters:
  assumes "visible f" "renderable f" "0 < worldAlpha f"
    and "priv_mask f = Some m" "priv_filters f = Some fs" "fs \<noteq> []"
  shows "calls (snd (renderWebGL (Container f cs) s)) =
           calls s @
           [Flush, PushFilter (oid f) fs, PushMask (oid f) m, Start, RenderWebGL (oid f)] @
           concat (map webgl_calls cs) @
           [Flush, PopMask (oid f) m, PopFilter, Start]"
proof -
  have ch: "calls (snd (renderWebGL_children cs s')) = calls s' @ concat (map webgl_calls cs)"
    for s'
    by (rule calls_renderWebGL_children) (rule calls_renderWebGL)
  from assms have "\<not> (worldAlpha f \<le> 0 \<or> \<not> renderable f)" by simp
  with assms show ?thesis
    by (simp add: ch case_prod_beta Let_def calls_backend incDisplayOrder_def)
qed


theorem renderWebGL_mask_and_filters_witness:
  "calls (snd (renderWebGL
      (Container ((plain 0)\<lparr>priv_mask := Some 7, priv_filters := Some [8, 9]\<rparr>)
         [Container (plain 1) [], Container (plain 2) []]) idle)) =
     [Flush, PushFilter 0 [8, 9], PushMask 0 7, Start, RenderWebGL 0,
      RenderWebGL 1, RenderWebGL 2,
      Flush, PopMask 0 7, PopFilter, Start]"
proof -
  let ?f = "(plain 0)\<lparr>priv_mask := Some 7, priv_filters := Some [8, 9]\<rparr>"
  have h: "visible ?f" "renderable ?f" "0 < worldAlpha ?f" "priv_mask ?f = Some 7"
    "priv_filters ?f = Some [8, 9]" "[8, 9] \<noteq> ([] :: ref list)" "oid ?f = 0"
    by (simp_all add: plain_def)
  have leaf: "webgl_calls (Container (plain i) []) = [RenderWebGL i]" for i
    by (simp add: webgl_calls_def plain_def idle_def incDisplayOrder_def backend_def)
  from renderWebGL_mask_and_filters [OF h(1-6), of "[Container (plain 1) [], Container (plain 2) []]" idle]
  show ?thesis
    by (simp add: leaf h(7) idle_def)
qed

text \<open>The numbers of \<open>pushFilter\<close> and of \<open>popFilter\<close> calls in a sequence of calls.\<close>

fun pushFilter_count :: "call list \<Rightarrow> nat" where
  "pushFilter_count [] = 0"
| "pushFilter_count (PushFilter i fs # cs) = Suc (pushFilter_count cs)"
| "pushFilter_count (c # cs) = pushFilter_count cs"

fun popFilter_count :: "call list \<Rightarrow> nat" where
  "popFilter_count [] = 0"
| "popFilter_count (PopFilter # cs) = Suc (popFilter_count cs)"
| "popFilter_count (c # cs) = popFilter_count cs"

text \<open>
  C2 fails on the code. \<open>pushFilter\<close> is guarded by \<open>_filters && _filters.length\<close>,
  \<open>popFilter\<close> by \<open>_filters\<close> alone: a visible, renderable, opaque container whose
  \<open>_filters\<close> is the empty array pops a filter it never pushed.
\<close>

theorem renderWebGL_empty_filters_pop_without_push:
  "calls (snd (renderWebGL (Container ((plain 0)\<lparr>priv_filters := Some []\<rparr>) []) idle)) =
     [Flush, Start, RenderWebGL 0, Flush, PopFilter, Start] \<and>
   pushFilter_count
     (calls (snd (renderWebGL (Container ((plain 0)\<lparr>priv_filters := Some []\<rparr>) []) idle))) = 0 \<and>
   popFilter_count
     (calls (snd (renderWebGL (Container ((plain 0)\<lparr>priv_filters := Some []\<rparr>) []) idle))) = 1"
  by (simp add: plain_def idle_def incDisplayOrder_def backend_def)

section \<open>Transform propagation\<close>

text \<open>
  The state of a transform pass: the global update-order counter, and the objects whose own
  transform was recomputed (\<open>displayObjectUpdateTransform\<close>), in call order.
\<close>

record update_state =
  update_order :: nat
  transform_updates :: "ref list"

text \<open>
  Modelled from the spec: \<open>utils.incUpdateOrder()\<close> is not among the source files. The
  spec describes a globally incrementing counter: the counter is incremented and its new
  value returned.
\<close>

definition incUpdateOrder :: "update_state \<Rightarrow> nat \<times> update_state" where
  "incUpdateOrder s = (Suc (update_order s), s\<lparr>update_order := Suc (update_order s)\<rparr>)"

text \<open>
  Modelled from the spec: \<open>displayObjectUpdateTransform\<close> belongs to \<open>DisplayObject\<close>, which
  is not among the source files. It recomputes the world transform of the one object it
  is called on; the model records the call.
\<close>

definition displayObjectUpdateTransform :: "ref \<Rightarrow> update_state \<Rightarrow> update_state" where
  "displayObjectUpdateTransform this s = s\<lparr>transform_updates := transform_updates s @ [this]\<rparr>"

fun updateTransform :: "container \<Rightarrow> update_state \<Rightarrow> container \<times> update_state"
  and updateTransform_children ::
    "container list \<Rightarrow> update_state \<Rightarrow> container list \<times> update_state"
  where
  "updateTransform (Container f cs) s =
     (if \<not> visible f then (Container f cs, s)
      else
        let s1 = displayObjectUpdateTransform (oid f) s
        in case updateTransform_children cs s1 of (cs', s2) \<Rightarrow>
           case incUpdateOrder s2 of (n, s3) \<Rightarrow>
           (Container (f\<lparr>updatePostOrder := n\<rparr>) cs', s3))"
| "updateTransform_children [] s = ([], s)"
| "updateTransform_children (c # cs) s =
     (case updateTransform c s of (c', s1) \<Rightarrow>
      case updateTransform_children cs s1 of (cs', s2) \<Rightarrow> (c' # cs', s2))"

text \<open>
  The state before the first pass, the own-transform calls that a pass over a subtree
  makes, and the two properties of trees the claim speaks of: every node is visible; every
  child's \<open>updatePostOrder\<close> is at most its parent's, throughout the tree.
\<close>

definition rested :: update_state where
  "rested = \<lparr>update_order = 0, transform_updates = []\<rparr>"

definition transform_log :: "container \<Rightarrow> ref list" where
  "transform_log t = transform_updates (snd (updateTransform t rested))"

fun all_visible :: "container \<Rightarrow> bool" where
  "all_visible (Container f cs) = (visible f \<and> list_all all_visible cs)"

fun post_ordered :: "container \<Rightarrow> bool" where
  "post_ordered (Container f cs) =
     list_all (\<lambda>c. updatePostOrder (node_fields c) \<le> updatePostOrder f \<and> post_ordered c) cs"

lemma log_children:
  assumes "\<And>c s. c \<in> set cs \<Longrightarrow>
             transform_updates (snd (updateTransform c s)) = transform_updates s @ transform_log c"
  shows "transform_updates (snd (updateTransform_children cs s)) =
           transform_updates s @ concat (map transform_log cs)"
  using assms
proof (induction cs arbitrary: s)
  case Nil
  show ?case by simp
next
  case (Cons c cs)
  have "transform_updates (snd (updateTransform_children (c # cs) s)) =
          transform_updates (snd (updateTransform_children cs (snd (updateTransform c s))))"
    by (simp add: case_prod_beta)
  also have "\<dots> = transform_updates (snd (updateTransform c s)) @ concat (map transform_log cs)"
    using Cons.IH Cons.prems by simp
  also have "\<dots> = (transform_updates s @ transform_log c) @ concat (map transform_log cs)"
    using Cons.prems [of c s] by simp
  finally show ?case by simp
qed

lemma log_node:
  assumes "\<And>s. transform_updates (snd (updateTransform_children cs s)) = transform_updates s @ K"
  shows "transform_updates (snd (updateTransform (Container f cs) s)) =
           transform_updates s @ transform_updates (snd (updateTransform (Container f cs) rested))"
  by (simp add: assms case_prod_beta Let_def incUpdateOrder_def displayObjectUpdateTransform_def
      rested_def)

lemma log_updateTransform:
  "transform_updates (snd (updateTransform t s)) = transform_updates s @ transform_log t"
proof (induction t arbitrary: s)
  case (Container f cs)
  have ch: "transform_updates (snd (updateTransform_children cs s')) =
              transform_updates s' @ concat (map transform_log cs)" for s'
    by (rule log_children) (rule Container.IH)
  show ?case
    unfolding transform_log_def by (rule log_node [OF ch])
qed

lemma log_visible:
  assumes "visible f"
  shows "transform_updates (snd (updateTransform (Container f cs) s)) =
           transform_updates s @ oid f # concat (map transform_log cs)"
proof -
  have ch: "transform_updates (snd (updateTransform_children cs s')) =
              transform_updates s' @ concat (map transform_log cs)" for s'
    by (rule log_children) (rule log_updateTransform)
  from assms show ?thesis
    by (simp add: ch case_prod_beta Let_def incUpdateOrder_def displayObjectUpdateTransform_def)
qed


lemma order_children_mono:
  assumes "\<And>c s. c \<in> set cs \<Longrightarrow> update_order s \<le> update_order (snd (updateTransform c s))"
  shows "update_order s \<le> update_order (snd (updateTransform_children cs s))"
  using assms
proof (induction cs arbitrary: s)
  case Nil
  show ?case by simp
next
  case (Cons c cs)
  have "update_order s \<le> update_order (snd (updateTransform c s))"
    using Cons.prems [of c s] by simp
  also have "\<dots> \<le> update_order (snd (updateTransform_children cs (snd (updateTransform c s))))"
    using Cons.IH Cons.prems by simp
  finally show ?case by (simp add: case_prod_beta)
qed

lemma order_mono: "update_order s \<le> update_order (snd (updateTransform t s))"
proof (induction t arbitrary: s)
  case (Container f cs)
  have "update_order s' \<le> update_order (snd (updateTransform_children cs s'))" for s'
    by (rule order_children_mono) (rule Container.IH)
  from this [of "displayObjectUpdateTransform (oid f) s"] show ?case
    by (simp add: case_prod_beta Let_def incUpdateOrder_def displayObjectUpdateTransform_def)
qed

lemma stamp_visible:
  assumes "visible f"
  shows "updatePostOrder (node_fields (fst (updateTransform (Container f cs) s))) =
           update_order (snd (updateTransform (Container f cs) s))"
    and "update_order (snd (updateTransform_children cs (displayObjectUpdateTransform (oid f) s)))
           < updatePostOrder (node_fields (fst (updateTransform (Container f cs) s)))"
    and "node_children (fst (updateTransform (Container f cs) s)) =
           fst (updateTransform_children cs (displayObjectUpdateTransform (oid f) s))"
  using assms by (simp_all add: case_prod_beta Let_def incUpdateOrder_def)

lemma all_visible_root: "all_visible t \<Longrightarrow> visible (node_fields t)"
  by (cases t) simp

lemma stamp_root:
  assumes "visible (node_fields t)"
  shows "updatePostOrder (node_fields (fst (updateTransform t s))) =
           update_order (snd (updateTransform t s))"
  using assms stamp_visible(1) by (cases t) simp

lemma children_bound:
  assumes "list_all all_visible cs"
    and "\<And>c s. c \<in> set cs \<Longrightarrow> all_visible c \<Longrightarrow> post_ordered (fst (updateTransform c s))"
  shows "list_all (\<lambda>c'. updatePostOrder (node_fields c')
                          \<le> update_order (snd (updateTransform_children cs s)) \<and>
                        post_ordered c')
           (fst (updateTransform_children cs s))"
  using assms
proof (induction cs arbitrary: s)
  case Nil
  show ?case by simp
next
  case (Cons c cs)
  let ?s1 = "snd (updateTransform c s)"
  from Cons.prems(1) have vc: "all_visible c" and vcs: "list_all all_visible cs" by simp_all
  have ih: "list_all (\<lambda>c'. updatePostOrder (node_fields c')
                          \<le> update_order (snd (updateTransform_children cs ?s1)) \<and>
                        post_ordered c')
           (fst (updateTransform_children cs ?s1))"
    using Cons.IH [OF vcs] Cons.prems(2) by simp
  have "updatePostOrder (node_fields (fst (updateTransform c s))) = update_order ?s1"
    by (rule stamp_root [OF all_visible_root [OF vc]])
  also have "\<dots> \<le> update_order (snd (updateTransform_children cs ?s1))"
    by (rule order_children_mono) (rule order_mono)
  finally have hd: "updatePostOrder (node_fields (fst (updateTransform c s)))
                      \<le> update_order (snd (updateTransform_children cs ?s1))" .
  have po: "post_ordered (fst (updateTransform c s))"
    using Cons.prems(2) [of c s] vc by simp
  from hd po ih show ?case by (simp add: case_prod_beta)
qed

lemma post_ordered_updateTransform:
  "all_visible t \<Longrightarrow> post_ordered (fst (updateTransform t s))"
proof (induction t arbitrary: s)
  case (Container f cs)
  from Container.prems have v: "visible f" and vcs: "list_all all_visible cs" by simp_all
  let ?s1 = "displayObjectUpdateTransform (oid f) s"
  have cb: "list_all (\<lambda>c'. updatePostOrder (node_fields c')
                          \<le> update_order (snd (updateTransform_children cs ?s1)) \<and>
                        post_ordered c')
           (fst (updateTransform_children cs ?s1))"
    by (rule children_bound [OF vcs]) (rule Container.IH)
  have "list_all (\<lambda>c'. updatePostOrder (node_fields c')
                          \<le> Suc (update_order (snd (updateTransform_children cs ?s1))) \<and>
                        post_ordered c')
           (fst (updateTransform_children cs ?s1))"
    by (rule list.pred_mono_strong [OF cb]) simp
  with v show ?case
    by (simp add: case_prod_beta Let_def incUpdateOrder_def)
qed


text \<open>
  C6. \<open>updateTransform\<close> on an invisible node returns at once: the node, its subtree and
  the state of the pass are unchanged. On a visible container it first recomputes the
  node's own transform, then updates the children in list order, and then stamps
  \<open>updatePostOrder\<close> with the counter's next value after all children are done. Hence
  after a pass over a tree of visible nodes every child's \<open>updatePostOrder\<close> is at most
  its parent's.
\<close>

theorem updateTransform_post_order:
  "(\<not> visible f \<longrightarrow> updateTransform (Container f cs) s = (Container f cs, s)) \<and>
   (visible f \<longrightarrow>
      transform_updates (snd (updateTransform (Container f cs) s)) =
        transform_updates s @ oid f # concat (map transform_log cs) \<and>
      node_children (fst (updateTransform (Container f cs) s)) =
        fst (updateTransform_children cs (displayObjectUpdateTransform (oid f) s)) \<and>
      updatePostOrder (node_fields (fst (updateTransform (Container f cs) s))) =
        Suc (update_order
               (snd (updateTransform_children cs (displayObjectUpdateTransform (oid f) s))))) \<and>
   (all_visible t \<longrightarrow> post_ordered (fst (updateTransform t s)))"
proof (intro conjI impI)
  assume "\<not> visible f"
  then show "updateTransform (Container f cs) s = (Container f cs, s)" by simp
next
  assume v: "visible f"
  show "transform_updates (snd (updateTransform (Container f cs) s)) =
        transform_updates s @ oid f # concat (map transform_log cs)"
    by (rule log_visible [OF v])
  show "node_children (fst (updateTransform (Container f cs) s)) =
        fst (updateTransform_children cs (displayObjectUpdateTransform (oid f) s))"
    by (rule stamp_visible(3) [OF v])
  from v show "updatePostOrder (node_fields (fst (updateTransform (Container f cs) s))) =
        Suc (update_order
               (snd (updateTransform_children cs (displayObjectUpdateTransform (oid f) s))))"
    by (simp add: case_prod_beta Let_def incUpdateOrder_def)
next
  assume "all_visible t"
  then show "post_ordered (fst (updateTransform t s))"
    by (rule post_ordered_updateTransform)
qed

theorem updateTransform_post_order_witness:
  "updateTransform (Container ((plain 0)\<lparr>visible := False\<rparr>) [Container (plain 1) []]) rested =
     (Container ((plain 0)\<lparr>visible := False\<rparr>) [Container (plain 1) []], rested) \<and>
   transform_updates (snd (updateTransform
      (Container (plain 0) [Container (plain 1) [Container (plain 2) []], Container (plain 3) []])
      rested)) = [0, 1, 2, 3] \<and>
   post_ordered (fst (updateTransform
      (Container (plain 0) [Container (plain 1) [Container (plain 2) []], Container (plain 3) []])
      rested)) \<and>
   fst (updateTransform
      (Container (plain 0) [Container (plain 1) [Container (plain 2) []], Container (plain 3) []])
      rested) =
     Container ((plain 0)\<lparr>updatePostOrder := 4\<rparr>)
       [Container ((plain 1)\<lparr>updatePostOrder := 2\<rparr>)
          [Container ((plain 2)\<lparr>updatePostOrder := 1\<rparr>) []],
        Container ((plain 3)\<lparr>updatePostOrder := 3\<rparr>) []]"
proof -
  let ?t = "Container (plain 0) [Container (plain 1) [Container (plain 2) []], Container (plain 3) []]"
  have iv: "\<not> visible ((plain 0)\<lparr>visible := False\<rparr>)" by simp
  have v: "visible (plain 0)" by (simp add: plain_def)
  have av: "all_visible ?t" by (simp add: plain_def)
  have leaf: "transform_log (Container (plain i) []) = [i]" for i
    by (simp add: transform_log_def plain_def rested_def incUpdateOrder_def
        displayObjectUpdateTransform_def)
  have l1: "transform_log (Container (plain 1) [Container (plain 2) []]) = [1, 2]"
    by (simp add: transform_log_def plain_def rested_def incUpdateOrder_def
        displayObjectUpdateTransform_def)
  from updateTransform_post_order [of "(plain 0)\<lparr>visible := False\<rparr>" "[Container (plain 1) []]" rested] iv
  have 1: "updateTransform (Container ((plain 0)\<lparr>visible := False\<rparr>) [Container (plain 1) []]) rested =
     (Container ((plain 0)\<lparr>visible := False\<rparr>) [Container (plain 1) []], rested)"
    by blast
  from updateTransform_post_order [of "plain 0"
      "[Container (plain 1) [Container (plain 2) []], Container (plain 3) []]" rested ?t] v av
  have raw: "transform_updates (snd (updateTransform ?t rested)) =
             transform_updates rested @ oid (plain 0) #
             concat (map transform_log
               [Container (plain 1) [Container (plain 2) []], Container (plain 3) []])"
    and 3: "post_ordered (fst (updateTransform ?t rested))"
    by blast+
  have 2: "transform_updates (snd (updateTransform ?t rested)) = [0, 1, 2, 3]"
    unfolding raw list.map leaf l1 by (simp add: plain_def rested_def)
  have 4: "fst (updateTransform ?t rested) =
     Container ((plain 0)\<lparr>updatePostOrder := 4\<rparr>)
       [Container ((plain 1)\<lparr>updatePostOrder := 2\<rparr>)
          [Container ((plain 2)\<lparr>updatePostOrder := 1\<rparr>) []],
        Container ((plain 3)\<lparr>updatePostOrder := 3\<rparr>) []]"
    by (simp add: plain_def rested_def incUpdateOrder_def displayObjectUpdateTransform_def)
  from 1 2 3 4 show ?thesis by blast
qed

section \<open>Bounds\<close>

text \<open>
  Comparison and arithmetic on coordinates: every comparison with \<open>NaN\<close> is false, and
  the sum of the two opposite infinities is \<open>NaN\<close>.
\<close>

fun js_lt :: "jsnum \<Rightarrow> jsnum \<Rightarrow> bool" where
  "js_lt NaN b = False"
| "js_lt a NaN = False"
| "js_lt a NegInfinity = False"
| "js_lt NegInfinity b = True"
| "js_lt Infinity b = False"
| "js_lt (Finite a) Infinity = True"
| "js_lt (Finite a) (Finite b) = (a < b)"

fun js_add :: "jsnum \<Rightarrow> jsnum \<Rightarrow> jsnum" where
  "js_add NaN b = NaN"
| "js_add a NaN = NaN"
| "js_add Infinity NegInfinity = NaN"
| "js_add NegInfinity Infinity = NaN"
| "js_add Infinity b = Infinity"
| "js_add a Infinity = Infinity"
| "js_add NegInfinity b = NegInfinity"
| "js_add a NegInfinity = NegInfinity"
| "js_add (Finite a) (Finite b) = Finite (a + b)"

fun js_neg :: "jsnum \<Rightarrow> jsnum" where
  "js_neg NaN = NaN"
| "js_neg Infinity = NegInfinity"
| "js_neg NegInfinity = Infinity"
| "js_neg (Finite a) = Finite (- a)"

definition js_gt :: "jsnum \<Rightarrow> jsnum \<Rightarrow> bool" where
  "js_gt a b = js_lt b a"

definition js_sub :: "jsnum \<Rightarrow> jsnum \<Rightarrow> jsnum" where
  "js_sub a b = js_add a (js_neg b)"

text \<open>
  The local variables of the loop in \<open>_getChildBounds\<close>, their values before the loop,
  and the body of the loop for a child that is not skipped, whose bounds are the
  rectangle \<open>(x, y, width, height)\<close>.
\<close>

record bounds_acc =
  minX :: jsnum
  minY :: jsnum
  maxX :: jsnum
  maxY :: jsnum
  childVisible :: bool

definition loop_start :: bounds_acc where
  "loop_start = \<lparr>minX = Infinity, minY = Infinity, maxX = NegInfinity, maxY = NegInfinity,
     childVisible = False\<rparr>"

definition accumulate :: "bounds_acc \<Rightarrow> jsnum \<Rightarrow> jsnum \<Rightarrow> jsnum \<Rightarrow> jsnum \<Rightarrow> bounds_acc" where
  "accumulate a x y width height =
     (let minX' = (if js_lt (minX a) x then minX a else x);
          minY' = (if js_lt (minY a) y then minY a else y);
          childMaxX = js_add width x;
          childMaxY = js_add height y;
          maxX' = (if js_gt (maxX a) childMaxX then maxX a else childMaxX);
          maxY' = (if js_gt (maxY a) childMaxY then maxY a else childMaxY)
      in \<lparr>minX = minX', minY = minY', maxX = maxX', maxY = maxY', childVisible = True\<rparr>)"

text \<open>
  Modelled from the spec: \<open>Rectangle.enlarge\<close> is not among the source files. The spec
  describes it as the union in place that leaves the rectangle unchanged when the other
  one is \<open>EMPTY\<close>, and for which the union of the empty rectangle with \<open>R\<close> is \<open>R\<close>.
\<close>

definition enlarge :: "rect \<Rightarrow> rect \<Rightarrow> rect" where
  "enlarge this other =
     (case other of
        EMPTY \<Rightarrow> this
      | Rectangle x2 y2 w2 h2 \<Rightarrow>
          (case this of
             EMPTY \<Rightarrow> other
           | Rectangle x1 y1 w1 h1 \<Rightarrow>
               (let x = (if js_lt x1 x2 then x1 else x2);
                    y = (if js_lt y1 y2 then y1 else y2);
                    r1 = js_add x1 w1; r2 = js_add x2 w2;
                    b1 = js_add y1 h1; b2 = js_add y2 h2;
                    r = (if js_gt r1 r2 then r1 else r2);
                    b = (if js_gt b1 b2 then b1 else b2)
                in Rectangle x y (js_sub r x) (js_sub b y))))"

text \<open>
  \<open>getBounds\<close>, \<open>_getChildBounds\<close> and its loop. Each returns its result together with the
  objects it has written to: the getter stores the result in \<open>_currentBounds\<close>, and
  \<open>_getChildBounds\<close> writes the accumulated extent into \<open>_bounds\<close> also when it returns
  \<open>EMPTY\<close>. An invisible child is skipped before its getter is called.
\<close>

fun getBounds :: "container \<Rightarrow> rect \<times> container"
  and priv_getChildBounds :: "container_fields \<Rightarrow> container list \<Rightarrow> rect \<times> container_fields \<times> container list"
  and getChildBounds_loop :: "container list \<Rightarrow> bounds_acc \<Rightarrow> bounds_acc \<times> container list"
  where
  "getBounds (Container f cs) =
     (case priv_localBounds f of
        Some lb \<Rightarrow> (fst lb, Container f cs)
      | None \<Rightarrow>
         (case priv_currentBounds f of
            Some r \<Rightarrow> (r, Container f cs)
          | None \<Rightarrow>
             (case projectedGeometry f of
                None \<Rightarrow>
                  (case priv_getChildBounds f cs of (r, f', cs') \<Rightarrow>
                     (r, Container (f'\<lparr>priv_currentBounds := Some r\<rparr>) cs'))
              | Some g \<Rightarrow>
                  (case priv_getChildBounds f cs of (r, f', cs') \<Rightarrow>
                     (enlarge g r, Container (f'\<lparr>priv_currentBounds := Some (enlarge g r)\<rparr>) cs')))))"
| "priv_getChildBounds f cs =
     (if length cs = 0 then (EMPTY, f, cs)
      else
        case getChildBounds_loop cs loop_start of (a, cs') \<Rightarrow>
        let bounds = Rectangle (minX a) (minY a) (js_sub (maxX a) (minX a)) (js_sub (maxY a) (minY a))
        in if \<not> childVisible a then (EMPTY, f\<lparr>priv_bounds := bounds\<rparr>, cs')
           else (bounds, f\<lparr>priv_bounds := bounds\<rparr>, cs'))"
| "getChildBounds_loop [] a = (a, [])"
| "getChildBounds_loop (child # rest) a =
     (if \<not> visible (node_fields child) then
        (case getChildBounds_loop rest a of (a', rest') \<Rightarrow> (a', child # rest'))
      else
        case getBounds child of (childBounds, child') \<Rightarrow>
        (case childBounds of
           EMPTY \<Rightarrow> (case getChildBounds_loop rest a of (a', rest') \<Rightarrow> (a', child' # rest'))
         | Rectangle x y width height \<Rightarrow>
             (case getChildBounds_loop rest (accumulate a x y width height) of
                (a', rest') \<Rightarrow> (a', child' # rest'))))"


text \<open>
  \<open>getComputedBounds\<close>, \<open>_getChildComputedBounds\<close> and its loop: the same code over the
  other cache slot, \<open>updateGeometry()\<close> and \<open>_computedBounds\<close>.
\<close>

fun getComputedBounds :: "container \<Rightarrow> rect \<times> container"
  and priv_getChildComputedBounds :: "container_fields \<Rightarrow> container list \<Rightarrow> rect \<times> container_fields \<times> container list"
  and getChildComputedBounds_loop :: "container list \<Rightarrow> bounds_acc \<Rightarrow> bounds_acc \<times> container list"
  where
  "getComputedBounds (Container f cs) =
     (case priv_localBounds f of
        Some lb \<Rightarrow> (snd lb, Container f cs)
      | None \<Rightarrow>
         (case priv_currentComputedBounds f of
            Some r \<Rightarrow> (r, Container f cs)
          | None \<Rightarrow>
             (case geometry f of
                None \<Rightarrow>
                  (case priv_getChildComputedBounds f cs of (r, f', cs') \<Rightarrow>
                     (r, Container (f'\<lparr>priv_currentComputedBounds := Some r\<rparr>) cs'))
              | Some g \<Rightarrow>
                  (case priv_getChildComputedBounds f cs of (r, f', cs') \<Rightarrow>
                     (enlarge g r, Container (f'\<lparr>priv_currentComputedBounds := Some (enlarge g r)\<rparr>) cs')))))"
| "priv_getChildComputedBounds f cs =
     (if length cs = 0 then (EMPTY, f, cs)
      else
        case getChildComputedBounds_loop cs loop_start of (a, cs') \<Rightarrow>
        let bounds = Rectangle (minX a) (minY a) (js_sub (maxX a) (minX a)) (js_sub (maxY a) (minY a))
        in if \<not> childVisible a then (EMPTY, f\<lparr>priv_computedBounds := bounds\<rparr>, cs')
           else (bounds, f\<lparr>priv_computedBounds := bounds\<rparr>, cs'))"
| "getChildComputedBounds_loop [] a = (a, [])"
| "getChildComputedBounds_loop (child # rest) a =
     (if \<not> visible (node_fields child) then
        (case getChildComputedBounds_loop rest a of (a', rest') \<Rightarrow> (a', child # rest'))
      else
        case getComputedBounds child of (childBounds, child') \<Rightarrow>
        (case childBounds of
           EMPTY \<Rightarrow> (case getChildComputedBounds_loop rest a of (a', rest') \<Rightarrow> (a', child' # rest'))
         | Rectangle x y width height \<Rightarrow>
             (case getChildComputedBounds_loop rest (accumulate a x y width height) of
                (a', rest') \<Rightarrow> (a', child' # rest'))))"


text \<open>
  The union as the spec words it: the bounds of every visible child whose own bounds are
  not \<open>EMPTY\<close> are united, starting from nothing; with no such child the result is
  \<open>EMPTY\<close>.
\<close>

fun unite :: "bounds_acc \<Rightarrow> rect \<Rightarrow> bounds_acc" where
  "unite a EMPTY = a"
| "unite a (Rectangle x y width height) = accumulate a x y width height"

definition contributing :: "container list \<Rightarrow> rect list" where
  "contributing cs =
     filter (\<lambda>b. b \<noteq> EMPTY)
       (map (\<lambda>c. fst (getBounds c)) (filter (\<lambda>c. visible (node_fields c)) cs))"

definition contributing_computed :: "container list \<Rightarrow> rect list" where
  "contributing_computed cs =
     filter (\<lambda>b. b \<noteq> EMPTY)
       (map (\<lambda>c. fst (getComputedBounds c)) (filter (\<lambda>c. visible (node_fields c)) cs))"

definition union_of :: "rect list \<Rightarrow> rect" where
  "union_of bs =
     (if bs = [] then EMPTY
      else let a = fold (\<lambda>b a. unite a b) bs loop_start
           in Rectangle (minX a) (minY a) (js_sub (maxX a) (minX a)) (js_sub (maxY a) (minY a)))"

lemma loop_is_fold:
  "fst (getChildBounds_loop cs a) = fold (\<lambda>b a. unite a b) (contributing cs) a"
proof (induction cs arbitrary: a)
  case Nil
  show ?case by (simp add: contributing_def)
next
  case (Cons c cs)
  show ?case
  proof (cases "visible (node_fields c)")
    case False
    with Cons.IH [of a] show ?thesis
      by (simp add: contributing_def case_prod_beta)
  next
    case True
    show ?thesis
    proof (cases "fst (getBounds c)")
      case EMPTY
      with True Cons.IH [of a] show ?thesis
        by (simp add: contributing_def case_prod_beta)
    next
      case (Rectangle x y w h)
      with True Cons.IH [of "accumulate a x y w h"] show ?thesis
        by (simp add: contributing_def case_prod_beta)
    qed
  qed
qed

lemma childVisible_fold:
  "\<forall>b \<in> set bs. b \<noteq> EMPTY \<Longrightarrow>
     childVisible (fold (\<lambda>b a. unite a b) bs a) = (childVisible a \<or> bs \<noteq> [])"
proof (induction bs arbitrary: a)
  case Nil
  show ?case by simp
next
  case (Cons b bs)
  from Cons.prems obtain x y w h where b: "b = Rectangle x y w h" by (cases b) auto
  from Cons.prems have "\<forall>b \<in> set bs. b \<noteq> EMPTY" by simp
  from Cons.IH [OF this, of "accumulate a x y w h"] show ?case
    by (simp add: b accumulate_def Let_def)
qed

lemma contributing_not_EMPTY: "\<forall>b \<in> set (contributing cs). b \<noteq> EMPTY"
  by (simp add: contributing_def)

lemma getChildBounds_is_union:
  "fst (priv_getChildBounds f cs) = union_of (contributing cs)"
proof (cases "cs = []")
  case True
  then show ?thesis by (simp add: union_of_def contributing_def)
next
  case False
  have cv: "childVisible (fold (\<lambda>b a. unite a b) (contributing cs) loop_start) =
              (contributing cs \<noteq> [])"
    using childVisible_fold [OF contributing_not_EMPTY, of cs loop_start]
    by (simp add: loop_start_def)
  from False show ?thesis
    by (simp add: case_prod_beta Let_def cv union_of_def loop_is_fold del: priv_getChildBounds.simps
        add: priv_getChildBounds.simps [of f cs])
qed


lemma computed_loop_is_fold:
  "fst (getChildComputedBounds_loop cs a) = fold (\<lambda>b a. unite a b) (contributing_computed cs) a"
proof (induction cs arbitrary: a)
  case Nil
  show ?case by (simp add: contributing_computed_def)
next
  case (Cons c cs)
  show ?case
  proof (cases "visible (node_fields c)")
    case False
    with Cons.IH [of a] show ?thesis
      by (simp add: contributing_computed_def case_prod_beta)
  next
    case True
    show ?thesis
    proof (cases "fst (getComputedBounds c)")
      case EMPTY
      with True Cons.IH [of a] show ?thesis
        by (simp add: contributing_computed_def case_prod_beta)
    next
      case (Rectangle x y w h)
      with True Cons.IH [of "accumulate a x y w h"] show ?thesis
        by (simp add: contributing_computed_def case_prod_beta)
    qed
  qed
qed


lemma contributing_computed_not_EMPTY: "\<forall>b \<in> set (contributing_computed cs). b \<noteq> EMPTY"
  by (simp add: contributing_computed_def)

lemma getChildComputedBounds_is_union:
  "fst (priv_getChildComputedBounds f cs) = union_of (contributing_computed cs)"
proof (cases "cs = []")
  case True
  then show ?thesis by (simp add: union_of_def contributing_computed_def)
next
  case False
  have cv: "childVisible (fold (\<lambda>b a. unite a b) (contributing_computed cs) loop_start) =
              (contributing_computed cs \<noteq> [])"
    using childVisible_fold [OF contributing_computed_not_EMPTY, of cs loop_start]
    by (simp add: loop_start_def)
  from False show ?thesis
    by (simp add: case_prod_beta Let_def cv union_of_def computed_loop_is_fold del: priv_getChildComputedBounds.simps
        add: priv_getChildComputedBounds.simps [of f cs])
qed


lemma union_of_EMPTY_iff: "union_of bs = EMPTY \<longleftrightarrow> bs = []"
  by (simp add: union_of_def Let_def)


lemma getBounds_uncached:
  assumes "priv_localBounds f = None" "priv_currentBounds f = None" "projectedGeometry f = None"
  shows "fst (getBounds (Container f cs)) = union_of (contributing cs)"
  using assms getChildBounds_is_union [of f cs]
  by (simp add: case_prod_beta del: priv_getChildBounds.simps)

lemma getComputedBounds_uncached:
  assumes "priv_localBounds f = None" "priv_currentComputedBounds f = None" "geometry f = None"
  shows "fst (getComputedBounds (Container f cs)) = union_of (contributing_computed cs)"
  using assms getChildComputedBounds_is_union [of f cs]
  by (simp add: case_prod_beta del: priv_getChildComputedBounds.simps)

text \<open>
  C8. The child-bounds union of \<open>getBounds\<close> and of \<open>getComputedBounds\<close> is the union over
  the bounds of the visible children whose getter does not return the \<open>EMPTY\<close> object:
  an invisible child is skipped without its getter being called, and a child whose getter
  returns \<open>EMPTY\<close> leaves the accumulated extent as it was. The union is \<open>EMPTY\<close> exactly
  when no child contributed, so a child returning a zero rectangle at the origin does
  contribute. When the getter computes (no \<open>_localBounds\<close>, no memoized value) and the node
  has no geometry of its own, its result is that union, hence \<open>EMPTY\<close> when no child
  contributed.
\<close>

theorem child_bounds_union:
  "fst (priv_getChildBounds f cs) = union_of (contributing cs) \<and>
   fst (priv_getChildComputedBounds f cs) = union_of (contributing_computed cs) \<and>
   (union_of bs = EMPTY \<longleftrightarrow> bs = []) \<and>
   (\<not> visible (node_fields c) \<longrightarrow>
      getChildBounds_loop (c # rest) a =
        (fst (getChildBounds_loop rest a), c # snd (getChildBounds_loop rest a)) \<and>
      getChildComputedBounds_loop (c # rest) a =
        (fst (getChildComputedBounds_loop rest a), c # snd (getChildComputedBounds_loop rest a))) \<and>
   (visible (node_fields c) \<and> fst (getBounds c) = EMPTY \<longrightarrow>
      fst (getChildBounds_loop (c # rest) a) = fst (getChildBounds_loop rest a)) \<and>
   (visible (node_fields c) \<and> fst (getComputedBounds c) = EMPTY \<longrightarrow>
      fst (getChildComputedBounds_loop (c # rest) a) = fst (getChildComputedBounds_loop rest a)) \<and>
   (priv_localBounds f = None \<and> priv_currentBounds f = None \<and> projectedGeometry f = None \<longrightarrow>
      fst (getBounds (Container f cs)) = union_of (contributing cs) \<and>
      (contributing cs = [] \<longrightarrow> fst (getBounds (Container f cs)) = EMPTY)) \<and>
   (priv_localBounds f = None \<and> priv_currentComputedBounds f = None \<and> geometry f = None \<longrightarrow>
      fst (getComputedBounds (Container f cs)) = union_of (contributing_computed cs) \<and>
      (contributing_computed cs = [] \<longrightarrow> fst (getComputedBounds (Container f cs)) = EMPTY))"
proof -
  have 1: "fst (priv_getChildBounds f cs) = union_of (contributing cs)"
    by (rule getChildBounds_is_union)
  have 2: "fst (priv_getChildComputedBounds f cs) = union_of (contributing_computed cs)"
    by (rule getChildComputedBounds_is_union)
  have 3: "union_of bs = EMPTY \<longleftrightarrow> bs = []"
    by (rule union_of_EMPTY_iff)
  have 4: "getChildBounds_loop (c # rest) a =
        (fst (getChildBounds_loop rest a), c # snd (getChildBounds_loop rest a)) \<and>
      getChildComputedBounds_loop (c # rest) a =
        (fst (getChildComputedBounds_loop rest a), c # snd (getChildComputedBounds_loop rest a))"
    if "\<not> visible (node_fields c)"
    using that by (simp add: case_prod_beta)
  have 5: "fst (getChildBounds_loop (c # rest) a) = fst (getChildBounds_loop rest a)"
    if "visible (node_fields c) \<and> fst (getBounds c) = EMPTY"
    using that by (simp add: case_prod_beta)
  have 6: "fst (getChildComputedBounds_loop (c # rest) a) = fst (getChildComputedBounds_loop rest a)"
    if "visible (node_fields c) \<and> fst (getComputedBounds c) = EMPTY"
    using that by (simp add: case_prod_beta)
  have 7: "fst (getBounds (Container f cs)) = union_of (contributing cs) \<and>
      (contributing cs = [] \<longrightarrow> fst (getBounds (Container f cs)) = EMPTY)"
    if "priv_localBounds f = None \<and> priv_currentBounds f = None \<and> projectedGeometry f = None"
    using that getBounds_uncached [of f cs] by (simp add: union_of_def)
  have 8: "fst (getComputedBounds (Container f cs)) = union_of (contributing_computed cs) \<and>
      (contributing_computed cs = [] \<longrightarrow> fst (getComputedBounds (Container f cs)) = EMPTY)"
    if "priv_localBounds f = None \<and> priv_currentComputedBounds f = None \<and> geometry f = None"
    using that getComputedBounds_uncached [of f cs] by (simp add: union_of_def)
  from 1 2 3 4 5 6 7 8 show ?thesis by blast
qed


text \<open>An example leaf: a childless container with visibility \<open>v\<close> whose geometry has bounds \<open>r\<close>.\<close>

definition with_geometry :: "ref \<Rightarrow> bool \<Rightarrow> rect \<Rightarrow> container" where
  "with_geometry i v r =
     Container ((plain i)\<lparr>visible := v, projectedGeometry := Some r, geometry := Some r\<rparr>) []"

lemma with_geometry_eval:
  "visible (node_fields (with_geometry i v r)) = v"
  "fst (getBounds (with_geometry i v r)) = r"
  "fst (getComputedBounds (with_geometry i v r)) = r"
  "visible (node_fields (Container (plain i) []))"
  "fst (getBounds (Container (plain i) [])) = EMPTY"
  "fst (getComputedBounds (Container (plain i) [])) = EMPTY"
  by (simp_all add: with_geometry_def plain_def enlarge_def)

lemma union_of_single:
  "union_of [Rectangle (Finite x) (Finite y) (Finite w) (Finite h)] =
     Rectangle (Finite x) (Finite y) (Finite w) (Finite h)"
  by (simp add: union_of_def accumulate_def loop_start_def js_sub_def js_gt_def Let_def)

theorem child_bounds_union_witness:
  "fst (getBounds (Container (plain 0)
      [with_geometry 1 True (Rectangle (Finite 0) (Finite 0) (Finite 10) (Finite 10)),
       with_geometry 2 False (Rectangle (Finite 100) (Finite 100) (Finite 5) (Finite 5))])) =
     Rectangle (Finite 0) (Finite 0) (Finite 10) (Finite 10) \<and>
   fst (getBounds (Container (plain 0)
      [with_geometry 2 False (Rectangle (Finite 100) (Finite 100) (Finite 5) (Finite 5)),
       Container (plain 3) []])) = EMPTY \<and>
   fst (getBounds (Container (plain 0)
      [with_geometry 4 True (Rectangle (Finite 0) (Finite 0) (Finite 0) (Finite 0))])) =
     Rectangle (Finite 0) (Finite 0) (Finite 0) (Finite 0) \<and>
   fst (getComputedBounds (Container (plain 0)
      [with_geometry 1 True (Rectangle (Finite 0) (Finite 0) (Finite 10) (Finite 10)),
       with_geometry 2 False (Rectangle (Finite 100) (Finite 100) (Finite 5) (Finite 5))])) =
     Rectangle (Finite 0) (Finite 0) (Finite 10) (Finite 10) \<and>
   fst (getComputedBounds (Container (plain 0)
      [with_geometry 2 False (Rectangle (Finite 100) (Finite 100) (Finite 5) (Finite 5)),
       Container (plain 3) []])) = EMPTY"
proof -
  let ?A = "with_geometry 1 True (Rectangle (Finite 0) (Finite 0) (Finite 10) (Finite 10))"
  let ?B = "with_geometry 2 False (Rectangle (Finite 100) (Finite 100) (Finite 5) (Finite 5))"
  let ?E = "Container (plain 3) []"
  let ?Z = "with_geometry 4 True (Rectangle (Finite 0) (Finite 0) (Finite 0) (Finite 0))"
  have p: "priv_localBounds (plain 0) = None \<and> priv_currentBounds (plain 0) = None \<and>
           projectedGeometry (plain 0) = None"
    "priv_localBounds (plain 0) = None \<and> priv_currentComputedBounds (plain 0) = None \<and>
           geometry (plain 0) = None"
    by (simp_all add: plain_def)
  have c1: "contributing [?A, ?B] = [Rectangle (Finite 0) (Finite 0) (Finite 10) (Finite 10)]"
    and c2: "contributing [?B, ?E] = []"
    and c3: "contributing [?Z] = [Rectangle (Finite 0) (Finite 0) (Finite 0) (Finite 0)]"
    and c4: "contributing_computed [?A, ?B] =
               [Rectangle (Finite 0) (Finite 0) (Finite 10) (Finite 10)]"
    and c5: "contributing_computed [?B, ?E] = []"
    by (simp_all add: contributing_def contributing_computed_def with_geometry_eval
        del: getBounds.simps getComputedBounds.simps)
  from child_bounds_union [where f = "plain 0" and cs = "[?A, ?B]"] p
  have 1: "fst (getBounds (Container (plain 0) [?A, ?B])) = union_of (contributing [?A, ?B])"
    and 4: "fst (getComputedBounds (Container (plain 0) [?A, ?B])) =
              union_of (contributing_computed [?A, ?B])"
    by blast+
  from child_bounds_union [where f = "plain 0" and cs = "[?B, ?E]"] p c2 c5
  have 2: "fst (getBounds (Container (plain 0) [?B, ?E])) = EMPTY"
    and 5: "fst (getComputedBounds (Container (plain 0) [?B, ?E])) = EMPTY"
    by blast+
  from child_bounds_union [where f = "plain 0" and cs = "[?Z]"] p
  have 3: "fst (getBounds (Container (plain 0) [?Z])) = union_of (contributing [?Z])"
    by blast
  from 1 2 3 4 5 show ?thesis
    unfolding c1 c3 c4 union_of_single by blast
qed

section \<open>The vertex shader of the batched sprite renderer\<close>

text \<open>
  \<open>texture.vert\<close>. Vectors are tuples of components, a matrix is the tuple of its four
  columns. The component type is left open: the shader's multiplication and addition are
  whatever the arithmetic of the device is, and nothing below depends on their laws.
\<close>

type_synonym 'a vec2 = "'a \<times> 'a"
type_synonym 'a vec3 = "'a \<times> 'a \<times> 'a"
type_synonym 'a vec4 = "'a \<times> 'a \<times> 'a \<times> 'a"
type_synonym 'a mat4 = "'a vec4 \<times> 'a vec4 \<times> 'a vec4 \<times> 'a vec4"

record 'a attributes =
  aVertexPosition :: "'a vec3"
  aTextureCoord :: "'a vec2"
  aColor :: "'a vec4"
  aTextureId :: 'a

record 'a outputs =
  gl_Position :: "'a vec4"
  vTextureCoord :: "'a vec2"
  vColor :: "'a vec4"
  vTextureId :: 'a

text \<open>
  The constructor \<open>vec4(v, w)\<close>, the swizzles \<open>.rgb\<close> and \<open>.a\<close>, a vector times a scalar,
  and a matrix times a vector.
\<close>

definition vec4_of_vec3 :: "'a vec3 \<Rightarrow> 'a \<Rightarrow> 'a vec4" where
  "vec4_of_vec3 v w = (case v of (x, y, z) \<Rightarrow> (x, y, z, w))"

definition rgb :: "'a vec4 \<Rightarrow> 'a vec3" where
  "rgb c = (case c of (r, g, b, a) \<Rightarrow> (r, g, b))"

definition alpha :: "'a vec4 \<Rightarrow> 'a" where
  "alpha c = (case c of (r, g, b, a) \<Rightarrow> a)"

definition vec3_times :: "'a::times vec3 \<Rightarrow> 'a \<Rightarrow> 'a vec3" where
  "vec3_times v s = (case v of (x, y, z) \<Rightarrow> (x * s, y * s, z * s))"

definition mat4_times_vec4 :: "'a::{plus,times} mat4 \<Rightarrow> 'a vec4 \<Rightarrow> 'a vec4" where
  "mat4_times_vec4 m v =
     (case m of ((a0, a1, a2, a3), (b0, b1, b2, b3), (c0, c1, c2, c3), (d0, d1, d2, d3)) \<Rightarrow>
      case v of (x, y, z, w) \<Rightarrow>
        (a0 * x + b0 * y + c0 * z + d0 * w,
         a1 * x + b1 * y + c1 * z + d1 * w,
         a2 * x + b2 * y + c2 * z + d2 * w,
         a3 * x + b3 * y + c3 * z + d3 * w))"

definition main :: "'a::{one,plus,times} mat4 \<Rightarrow> 'a attributes \<Rightarrow> 'a outputs" where
  "main projectionMatrix v =
     \<lparr>gl_Position = mat4_times_vec4 projectionMatrix (vec4_of_vec3 (aVertexPosition v) 1),
      vTextureCoord = aTextureCoord v,
      vColor = vec4_of_vec3 (vec3_times (rgb (aColor v)) (alpha (aColor v))) (alpha (aColor v)),
      vTextureId = aTextureId v\<rparr>"

text \<open>
  C9. For every vertex the colour passed to the fragment stage is
  \<open>(aColor.rgb * aColor.a, aColor.a)\<close>: the colour components multiplied by alpha once,
  alpha itself unchanged. The texture coordinate and the texture-unit index are passed on
  as they are.
\<close>

theorem vertex_color_premultiplied:
  "vColor (main projectionMatrix \<lparr>aVertexPosition = p, aTextureCoord = uv,
                                  aColor = (r, g, b, a), aTextureId = t\<rparr>) =
     (r * a, g * a, b * a, a) \<and>
   vTextureCoord (main projectionMatrix \<lparr>aVertexPosition = p, aTextureCoord = uv,
                                  aColor = (r, g, b, a), aTextureId = t\<rparr>) = uv \<and>
   vTextureId (main projectionMatrix \<lparr>aVertexPosition = p, aTextureCoord = uv,
                                  aColor = (r, g, b, a), aTextureId = t\<rparr>) = t"
  by (simp add: main_def vec4_of_vec3_def vec3_times_def rgb_def alpha_def)

end
